theory Spec2Isabelle
  imports Complex_Main
begin

section \<open>MTGScan: card-name resolution and deck assembly (mtgscan/text.py)\<close>

text \<open>
  A shallow embedding of \<^verbatim>\<open>MagicRecognition\<close> from \<^verbatim>\<open>src/mtgscan/text.py\<close>.
  Python strings are modelled as \<^typ>\<open>string\<close>; a \<^typ>\<open>char\<close> stands for one code point
  below 256 (Latin-1), so that the multiplication sign \<^verbatim>\<open>U+00D7\<close> is the single character
  \<open>CHR 0xD7\<close> and \<open>length\<close> counts code points as Python's \<^verbatim>\<open>len\<close> does.
  Python exceptions are values of \<open>error\<close>; a function that may raise returns
  \<open>error + 'a\<close>. Logging has no effect on results and is left out, except where
  building the log message itself can raise (a division inside an f-string).
\<close>

subsection \<open>Errors and data\<close>

datatype error = IndexError | ValueError | ZeroDivisionError

text \<open>
  Modelled from the spec: the module \<^verbatim>\<open>mtgscan.box_text\<close> (\<^verbatim>\<open>BoxText\<close>, \<^verbatim>\<open>BoxTextList\<close>) is
  not among the sources. A \<^verbatim>\<open>BoxText\<close> is a box, its text and a count \<^verbatim>\<open>n\<close> that defaults
  to 1; it unpacks as (\<^verbatim>\<open>box\<close>, \<^verbatim>\<open>text\<close>, \<^verbatim>\<open>n\<close>). Only \<^verbatim>\<open>box[0]\<close> and \<^verbatim>\<open>box[1]\<close> are read by
  \<^verbatim>\<open>text.py\<close>, so a box is the pair of these two coordinates. A \<^verbatim>\<open>BoxTextList\<close> is an
  ordered sequence of them, a list: \<^verbatim>\<open>add\<close> appends, and indexing out of range raises
  \<^verbatim>\<open>IndexError\<close>.
\<close>

type_synonym box = "int \<times> int"

record box_text =
  bt_box :: box
  bt_text :: string
  bt_n :: int

text \<open>
  Modelled from the spec: the module \<^verbatim>\<open>mtgscan.deck\<close> (\<^verbatim>\<open>Deck\<close>, \<^verbatim>\<open>Pile\<close>) is not among the
  sources. \<^verbatim>\<open>Pile.cards\<close> is a mapping from card name to quantity, a Python dict: an
  association list with distinct keys, in insertion order. A \<^verbatim>\<open>Deck\<close> holds two piles.
\<close>

type_synonym pile = "(string \<times> int) list"

record deck =
  maindeck :: pile
  sideboard :: pile

text \<open>
  The state of a \<^verbatim>\<open>MagicRecognition\<close> object after \<^verbatim>\<open>__init__\<close>: the two ratios, the
  card dictionary (\<^verbatim>\<open>self.all_cards\<close>, which is the word table of \<^verbatim>\<open>self.sym_all_cards\<close>, in
  insertion order) and the keyword dictionary (the word table of \<^verbatim>\<open>self.sym_keywords\<close>).
  The ratios are Python floats; they are modelled as exact rationals. For the defaults
  0.3 and 0.2 the float product truncates to the same integer as the exact one at
  every length that matters (at most 30 for 0.3; the result for 0.2 is capped at 3).
\<close>

record magic_recognition =
  max_ratio_diff :: rat
  max_ratio_diff_keyword :: rat
  all_cards :: "string list"
  sym_keywords :: "string list"

subsection \<open>Python built-ins used by the code\<close>

text \<open>\<^verbatim>\<open>int(x)\<close> on a float truncates towards zero.\<close>

definition py_int :: "rat \<Rightarrow> int" where
  "py_int r = (if 0 \<le> r then \<lfloor>r\<rfloor> else \<lceil>r\<rceil>)"

text \<open>\<^verbatim>\<open>s.rstrip(' ')\<close>\<close>

definition rstrip_space :: "string \<Rightarrow> string" where
  "rstrip_space s = rev (dropWhile (\<lambda>c. c = CHR '' '') (rev s))"

text \<open>\<^verbatim>\<open>text.find("..")\<close>: the first index of two adjacent periods; \<open>None\<close> stands for -1.\<close>

fun find_dotdot :: "string \<Rightarrow> nat option" where
  "find_dotdot (a # b # r) =
     (if a = CHR ''.'' \<and> b = CHR ''.'' then Some 0
      else map_option Suc (find_dotdot (b # r)))"
| "find_dotdot _ = None"

text \<open>
  \<^verbatim>\<open>c.isnumeric()\<close> for one code point below 256: the ten decimal digits, the
  superscripts two, three and one, and the fractions one quarter, one half and three
  quarters. \<^verbatim>\<open>int(c)\<close> accepts the decimal digits only and raises \<^verbatim>\<open>ValueError\<close> on
  the other six.
\<close>

definition isdecimal :: "char \<Rightarrow> bool" where
  "isdecimal c = (48 \<le> (of_char c :: nat) \<and> (of_char c :: nat) \<le> 57)"

definition isnumeric :: "char \<Rightarrow> bool" where
  "isnumeric c = (isdecimal c \<or> (of_char c :: nat) \<in> {178, 179, 185, 188, 189, 190})"

definition int_of_char :: "char \<Rightarrow> error + int" where
  "int_of_char c = (if isdecimal c then Inr (int (of_char c) - 48) else Inl ValueError)"

subsection \<open>The symspellpy library\<close>

text \<open>
  \<^verbatim>\<open>symspellpy\<close> is an external library. Its documented behaviour is modelled:
  the Levenshtein distance (insertions, deletions, substitutions), the
  Damerau optimal-string-alignment distance (these and transpositions of two adjacent
  characters), \<^verbatim>\<open>EditDistance.compare\<close> and \<^verbatim>\<open>SymSpell.lookup\<close> with
  \<^verbatim>\<open>Verbosity.CLOSEST\<close>.
\<close>

fun levenshtein :: "'a list \<Rightarrow> 'a list \<Rightarrow> nat" where
  "levenshtein [] ys = length ys"
| "levenshtein xs [] = length xs"
| "levenshtein (x # xs) (y # ys) =
     min (min (levenshtein xs (y # ys) + 1) (levenshtein (x # xs) ys + 1))
         (levenshtein xs ys + (if x = y then 0 else 1))"

fun damerau_osa :: "'a list \<Rightarrow> 'a list \<Rightarrow> nat" where
  "damerau_osa [] ys = length ys"
| "damerau_osa xs [] = length xs"
| "damerau_osa (x # x' # xs) (y # y' # ys) =
     (let d = min (min (damerau_osa (x' # xs) (y # y' # ys) + 1)
                       (damerau_osa (x # x' # xs) (y' # ys) + 1))
                  (damerau_osa (x' # xs) (y' # ys) + (if x = y then 0 else 1))
      in if x = y' \<and> x' = y then min d (damerau_osa xs ys + 1) else d)"
| "damerau_osa (x # xs) (y # ys) =
     min (min (damerau_osa xs (y # ys) + 1) (damerau_osa (x # xs) ys + 1))
         (damerau_osa xs ys + (if x = y then 0 else 1))"

text \<open>
  \<^verbatim>\<open>EditDistance(LEVENSHTEIN).compare(s1, s2, max_distance)\<close>: the distance when it is at
  most \<^verbatim>\<open>max_distance\<close>, otherwise -1; with \<^verbatim>\<open>max_distance <= 0\<close> only equal strings
  are compared successfully.
\<close>

definition compare :: "string \<Rightarrow> string \<Rightarrow> int \<Rightarrow> int" where
  "compare string_1 string_2 max_distance =
     (if max_distance \<le> 0 then (if string_1 = string_2 then 0 else - 1)
      else if int (levenshtein string_1 string_2) \<le> max_distance
           then int (levenshtein string_1 string_2) else - 1)"

text \<open>
  \<^verbatim>\<open>SymSpell.lookup(phrase, Verbosity.CLOSEST, max_edit_distance)\<close> over the word table
  \<open>words\<close>, with the distance algorithm \<open>distance\<close> of the instance: a phrase that is a word
  is returned alone at distance 0; otherwise the result holds the words at the smallest
  distance found, provided that distance is at most \<^verbatim>\<open>max_edit_distance\<close>. A suggestion
  is a pair (term, distance). All words have count 1 here, so the library's order among
  suggestions of equal distance is internal to it; the model lists them in table order.
\<close>

definition lookup ::
  "(string \<Rightarrow> string \<Rightarrow> nat) \<Rightarrow> string list \<Rightarrow> string \<Rightarrow> int \<Rightarrow> (string \<times> nat) list" where
  "lookup distance words phrase max_edit_distance =
     (if phrase \<in> set words then [(phrase, 0)]
      else
        (let cands = filter (\<lambda>w. int (distance phrase w) \<le> max_edit_distance) words
         in if cands = [] then []
            else (let m = min_list (map (distance phrase) cands)
                  in map (\<lambda>w. (w, m)) (filter (\<lambda>w. distance phrase w = m) cands))))"

subsection \<open>Preprocessor\<close>

text \<open>\<^verbatim>\<open>re.sub("[^a-zA-Z',. ]", '', text).rstrip(' ')\<close>\<close>

definition allowed_char :: "char \<Rightarrow> bool" where
  "allowed_char c =
     ((97 \<le> (of_char c :: nat) \<and> (of_char c :: nat) \<le> 122)
      \<or> (65 \<le> (of_char c :: nat) \<and> (of_char c :: nat) \<le> 90)
      \<or> c = CHR 0x27 \<or> c = CHR '','' \<or> c = CHR ''.'' \<or> c = CHR '' '')"

definition preprocess :: "string \<Rightarrow> string" where
  "preprocess text = rstrip_space (filter allowed_char text)"

subsection \<open>Card Resolver: \<^verbatim>\<open>MagicRecognition.search\<close>\<close>

text \<open>
  The loop of the truncated path (lines 149 to 153), with the loop state
  (\<^verbatim>\<open>card\<close>, \<^verbatim>\<open>dist\<close>), here \<open>best\<close> and \<open>dst\<close>, passed along; \<open>txt\<close> is the text and \<open>i\<close> the index of the marker.
\<close>

fun search_prefix :: "string \<Rightarrow> nat \<Rightarrow> string list \<Rightarrow> string option \<Rightarrow> int \<Rightarrow> string option \<times> int" where
  "search_prefix txt i [] best dst = (best, dst)"
| "search_prefix txt i (c # cs) best dst =
     (let d = compare (take i txt) (take i c) dst
      in if d \<noteq> - 1 \<and> d < dst then search_prefix txt i cs (Some c) d
         else search_prefix txt i cs best dst)"

definition search :: "magic_recognition \<Rightarrow> string \<Rightarrow> error + string option" where
  "search self txt =
     (if length txt < 3 then Inr None
      else if length txt > 30 then Inr None
      else if txt \<in> set (all_cards self) then Inr (Some txt)
      else
        (case find_dotdot txt of
           Some i \<Rightarrow>
             Inr (fst (search_prefix txt i (all_cards self) None
                         (py_int (max_ratio_diff self * of_nat i))))
         | None \<Rightarrow>
             (let txt' = rstrip_space (filter (\<lambda>c. c \<noteq> CHR ''.'') txt);
                  sug = lookup levenshtein (all_cards self) txt'
                          (min 6 (py_int (max_ratio_diff self * of_nat (length txt'))))
              in case sug of
                   [] \<Rightarrow> Inr None
                 | s # _ \<Rightarrow>
                     if length txt' = 0 then Inl ZeroDivisionError
                     else if length txt' < length (fst s) + 7 then Inr (Some (fst s))
                     else Inr None)))"

subsection \<open>Keyword Filter and resolution of a box list: \<^verbatim>\<open>box_texts_to_cards\<close>\<close>

text \<open>
  The loop of lines 74 to 82, with the list \<^verbatim>\<open>box_cards\<close> built so far passed along.
  The keyword lookup reads the box's text as it is stored; only the argument of
  \<^verbatim>\<open>search\<close> goes through \<^verbatim>\<open>preprocess\<close>. The keyword dictionary keeps the library's
  default distance (Damerau optimal string alignment). When a keyword is found, the log
  message divides by \<^verbatim>\<open>len(text)\<close>. \<^verbatim>\<open>box_cards.add(box, card)\<close> appends a box with the
  default count 1.
\<close>

fun box_texts_to_cards_loop ::
  "magic_recognition \<Rightarrow> box_text list \<Rightarrow> box_text list \<Rightarrow> error + box_text list" where
  "box_texts_to_cards_loop self box_cards [] = Inr box_cards"
| "box_texts_to_cards_loop self box_cards (bt # rest) =
     (let txt = bt_text bt;
          sug = lookup damerau_osa (sym_keywords self) txt
                  (min 3 (py_int (max_ratio_diff_keyword self * of_nat (length txt))))
      in if sug \<noteq> [] then
           (if length txt = 0 then Inl ZeroDivisionError
            else box_texts_to_cards_loop self box_cards rest)
         else
           (case search self (preprocess txt) of
              Inl e \<Rightarrow> Inl e
            | Inr None \<Rightarrow> box_texts_to_cards_loop self box_cards rest
            | Inr (Some c) \<Rightarrow>
                box_texts_to_cards_loop self
                  (box_cards @ [\<lparr>bt_box = bt_box bt, bt_text = c, bt_n = 1\<rparr>]) rest))"

definition box_texts_to_cards :: "magic_recognition \<Rightarrow> box_text list \<Rightarrow> error + box_text list" where
  "box_texts_to_cards self box_texts = box_texts_to_cards_loop self [] box_texts"

subsection \<open>Quantity Assigner: \<^verbatim>\<open>assign_stacked\<close>\<close>

text \<open>The squared distance \<^verbatim>\<open>dist\<close> and the two comparators of lines 95 to 104.\<close>

definition dist_sq :: "box \<Rightarrow> box \<Rightarrow> int" where
  "dist_sq p q = (fst p - fst q)\<^sup>2 + (snd p - snd q)\<^sup>2"

definition comp_md :: "box \<Rightarrow> box \<Rightarrow> box \<Rightarrow> bool" where
  "comp_md box1 box2 box = (dist_sq box box1 < dist_sq box box2)"

definition comp_sb :: "box \<Rightarrow> box \<Rightarrow> box \<Rightarrow> bool" where
  "comp_sb box1 box2 box =
     (if fst box1 > fst box \<or> snd box1 > snd box then False
      else dist_sq box box1 < dist_sq box box2)"

text \<open>\<^verbatim>\<open>comp = (comp_md, comp_sb)\<close>, indexed by 0 or 1.\<close>

definition comp :: "nat \<Rightarrow> box \<Rightarrow> box \<Rightarrow> box \<Rightarrow> bool" where
  "comp i = (if i = 0 then comp_md else comp_sb)"

text \<open>
  \<^verbatim>\<open>assign_stacked_one\<close> (lines 87 to 93): \<^verbatim>\<open>i_min\<close> starts at 0 and the loop over
  \<^verbatim>\<open>range(len(box_cards))\<close> replaces it by \<open>i\<close> whenever the comparator prefers box \<open>i\<close>
  to box \<^verbatim>\<open>i_min\<close>. Then \<^verbatim>\<open>box_cards[i_min].n = m\<close>, which raises \<^verbatim>\<open>IndexError\<close> when the
  index is out of range.
\<close>

definition i_min_loop :: "(box \<Rightarrow> box \<Rightarrow> bool) \<Rightarrow> box_text list \<Rightarrow> nat" where
  "i_min_loop cmp box_cards =
     foldl (\<lambda>i_min i. if cmp (bt_box (box_cards ! i)) (bt_box (box_cards ! i_min)) then i else i_min)
       0 [0..<length box_cards]"

definition assign_stacked_one ::
  "box_text list \<Rightarrow> int \<Rightarrow> (box \<Rightarrow> box \<Rightarrow> bool) \<Rightarrow> error + box_text list" where
  "assign_stacked_one box_cards m cmp =
     (let i_min = i_min_loop cmp box_cards
      in if i_min < length box_cards
         then Inr (box_cards[i_min := (box_cards ! i_min)\<lparr>bt_n := m\<rparr>])
         else Inl IndexError)"

text \<open>The multiplier glyphs of line 110: the multiplication sign, \<^verbatim>\<open>x\<close> and \<^verbatim>\<open>X\<close>.\<close>

definition glyph :: "char \<Rightarrow> bool" where
  "glyph c = (c = CHR 0xD7 \<or> c = CHR ''x'' \<or> c = CHR ''X'')"

text \<open>
  The body of \<^verbatim>\<open>for i in [0, 1]\<close> (lines 110 and 111) for a text of length 2. The argument
  \<^verbatim>\<open>int(text[1 - i])\<close> is evaluated before \<^verbatim>\<open>assign_stacked_one\<close> is entered.
\<close>

definition assign_stacked_label ::
  "box \<Rightarrow> string \<Rightarrow> nat \<Rightarrow> box_text list \<Rightarrow> error + box_text list" where
  "assign_stacked_label box txt i box_cards =
     (if glyph (txt ! i) \<and> isnumeric (txt ! (1 - i)) then
        (case int_of_char (txt ! (1 - i)) of
           Inl e \<Rightarrow> Inl e
         | Inr m \<Rightarrow> assign_stacked_one box_cards m (\<lambda>box1 box2. comp i box1 box2 box))
      else Inr box_cards)"

fun assign_stacked :: "box_text list \<Rightarrow> box_text list \<Rightarrow> error + box_text list" where
  "assign_stacked [] box_cards = Inr box_cards"
| "assign_stacked (bt # rest) box_cards =
     (if length (bt_text bt) = 2 then
        (case assign_stacked_label (bt_box bt) (bt_text bt) 0 box_cards of
           Inl e \<Rightarrow> Inl e
         | Inr box_cards1 \<Rightarrow>
             (case assign_stacked_label (bt_box bt) (bt_text bt) 1 box_cards1 of
                Inl e \<Rightarrow> Inl e
              | Inr box_cards2 \<Rightarrow> assign_stacked rest box_cards2))
      else assign_stacked rest box_cards)"

subsection \<open>Deck Assembler (lines 118 to 135)\<close>

text \<open>
  \<^verbatim>\<open>add_cards(deck, p)\<close> for the card of the current entry: a card already in the pile
  has \<open>p\<close> added to its quantity, a new card is entered only when \<open>p > 0\<close>.
\<close>

fun pile_incr :: "pile \<Rightarrow> string \<Rightarrow> int \<Rightarrow> pile" where
  "pile_incr [] c p = []"
| "pile_incr ((k, v) # r) c p = (if k = c then (k, v + p) # r else (k, v) # pile_incr r c p)"

definition add_cards :: "pile \<Rightarrow> string \<Rightarrow> int \<Rightarrow> pile" where
  "add_cards pl c p =
     (if c \<in> fst ` set pl then pile_incr pl c p
      else if p > 0 then pl @ [(c, p)]
      else pl)"

text \<open>The loop of lines 122 to 131; its state is (\<^verbatim>\<open>maindeck\<close>, \<^verbatim>\<open>sideboard\<close>, \<^verbatim>\<open>n_added\<close>).\<close>

fun assemble_loop :: "int \<Rightarrow> box_text list \<Rightarrow> pile \<times> pile \<times> int \<Rightarrow> pile \<times> pile \<times> int" where
  "assemble_loop last_main_card [] st = st"
| "assemble_loop last_main_card (bc # rest) (md, sb, n_added) =
     (let n_added_main = max (min (bt_n bc) (last_main_card - n_added)) 0
      in assemble_loop last_main_card rest
           (add_cards md (bt_text bc) n_added_main,
            add_cards sb (bt_text bc) (bt_n bc - n_added_main),
            n_added + bt_n bc))"

definition assemble_deck :: "box_text list \<Rightarrow> deck" where
  "assemble_deck box_cards =
     (let n_cards = sum_list (map bt_n box_cards);
          last_main_card = max 60 (n_cards - 15);
          st = assemble_loop last_main_card box_cards ([], [], 0)
      in \<lparr>maindeck = fst st, sideboard = fst (snd st)\<rparr>)"

subsection \<open>The pipeline: \<^verbatim>\<open>box_texts_to_stacked_cards\<close>\<close>

text \<open>
  Modelled from the spec: \<^verbatim>\<open>BoxTextList.sort\<close> (module \<^verbatim>\<open>mtgscan.box_text\<close>) is not among
  the sources. The spec describes the order as a stable total order over boxes, top to
  bottom, then left to right: a stable insertion sort on the key (\<open>y\<close>, \<open>x\<close>).
\<close>

definition box_le :: "box \<Rightarrow> box \<Rightarrow> bool" where
  "box_le b1 b2 = (snd b1 < snd b2 \<or> (snd b1 = snd b2 \<and> fst b1 \<le> fst b2))"

fun insort_box_text :: "box_text \<Rightarrow> box_text list \<Rightarrow> box_text list" where
  "insort_box_text x [] = [x]"
| "insort_box_text x (y # ys) =
     (if box_le (bt_box x) (bt_box y) then x # y # ys else y # insort_box_text x ys)"

definition sort_box_texts :: "box_text list \<Rightarrow> box_text list" where
  "sort_box_texts box_texts = foldr insort_box_text box_texts []"

definition box_texts_to_stacked_cards :: "magic_recognition \<Rightarrow> box_text list \<Rightarrow> error + deck" where
  "box_texts_to_stacked_cards self box_texts =
     (let sorted_texts = sort_box_texts box_texts
      in case box_texts_to_cards self sorted_texts of
           Inl e \<Rightarrow> Inl e
         | Inr box_cards \<Rightarrow>
             (case assign_stacked sorted_texts box_cards of
                Inl e \<Rightarrow> Inl e
              | Inr box_cards' \<Rightarrow> Inr (assemble_deck box_cards')))"

subsection \<open>Construction with the default ratios, and measures of a pile\<close>

text \<open>
  \<^verbatim>\<open>MagicRecognition()\<close> with the default arguments of \<^verbatim>\<open>__init__\<close>,
  \<^verbatim>\<open>max_ratio_diff=0.3\<close> and \<^verbatim>\<open>max_ratio_diff_keyword=0.2\<close>; the two dictionaries, which
  \<^verbatim>\<open>__init__\<close> reads from files, are arguments.
\<close>

definition MagicRecognition :: "string list \<Rightarrow> string list \<Rightarrow> magic_recognition" where
  "MagicRecognition cards keywords =
     \<lparr>max_ratio_diff = 3 / 10, max_ratio_diff_keyword = 2 / 10,
      all_cards = cards, sym_keywords = keywords\<rparr>"

definition pile_keys :: "pile \<Rightarrow> string set" where
  "pile_keys pl = fst ` set pl"

definition pile_total :: "pile \<Rightarrow> int" where
  "pile_total pl = sum_list (map snd pl)"

text \<open>
  The distance that the truncated path compares: the Levenshtein distance between the
  first \<open>i\<close> characters of the text and the first \<open>i\<close> characters of a card name.
\<close>

definition prefix_distance :: "string \<Rightarrow> nat \<Rightarrow> string \<Rightarrow> int" where
  "prefix_distance txt i c = int (levenshtein (take i txt) (take i c))"

subsection \<open>The Deck Assembler as the specification words it\<close>

text \<open>
  The specification of the Deck Assembler, for comparison with \<open>assemble_deck\<close>:
  \<open>last_main_card = max(60, total - 15)\<close>; each entry, in order, gives
  \<open>min(n, max(last_main_card - added, 0))\<close> copies to the maindeck and the remainder to the
  sideboard; quantities are merged by card name, and a pile holds positive quantities
  only, so that zero copies leave it as it is.
\<close>

definition merge_by_name :: "pile \<Rightarrow> string \<Rightarrow> int \<Rightarrow> pile" where
  "merge_by_name pl c q =
     (if q = 0 then pl
      else if c \<in> pile_keys pl then pile_incr pl c q
      else pl @ [(c, q)])"

fun assemble_spec_loop :: "int \<Rightarrow> box_text list \<Rightarrow> pile \<times> pile \<times> int \<Rightarrow> pile \<times> pile \<times> int" where
  "assemble_spec_loop last_main_card [] st = st"
| "assemble_spec_loop last_main_card (bc # rest) (md, sb, added) =
     (let to_main = min (bt_n bc) (max (last_main_card - added) 0)
      in assemble_spec_loop last_main_card rest
           (merge_by_name md (bt_text bc) to_main,
            merge_by_name sb (bt_text bc) (bt_n bc - to_main),
            added + bt_n bc))"

definition assemble_deck_spec :: "box_text list \<Rightarrow> deck" where
  "assemble_deck_spec box_cards =
     (let total = sum_list (map bt_n box_cards);
          last_main_card = max 60 (total - 15);
          st = assemble_spec_loop last_main_card box_cards ([], [], 0)
      in \<lparr>maindeck = fst st, sideboard = fst (snd st)\<rparr>)"

subsection \<open>Count labels and the directional gate\<close>

text \<open>
  The texts for which line 110 calls \<^verbatim>\<open>assign_stacked_one\<close>: two characters, one of them a
  multiplier glyph and the other one numeric (\<open>count_label\<close>); and those among them whose
  numeric character is a decimal digit (\<open>decimal_label\<close>).
\<close>

definition count_label :: "string \<Rightarrow> bool" where
  "count_label t =
     (length t = 2 \<and> ((glyph (t ! 0) \<and> isnumeric (t ! 1)) \<or> (glyph (t ! 1) \<and> isnumeric (t ! 0))))"

definition decimal_label :: "string \<Rightarrow> bool" where
  "decimal_label t =
     (length t = 2 \<and> ((glyph (t ! 0) \<and> isdecimal (t ! 1)) \<or> (glyph (t ! 1) \<and> isdecimal (t ! 0))))"

text \<open>
  The directional gate of \<^verbatim>\<open>comp_sb\<close> (line 102): both coordinates of the candidate box
  are at most those of the label's box.
\<close>

definition gate :: "box \<Rightarrow> box \<Rightarrow> bool" where
  "gate box1 box = (fst box1 \<le> fst box \<and> snd box1 \<le> snd box)"

section \<open>Properties\<close>

subsection \<open>The library model\<close>

lemma levenshtein_length_bounds:
  "length xs \<le> length ys + levenshtein xs ys \<and> length ys \<le> length xs + levenshtein xs ys"
  by (induction xs ys rule: levenshtein.induct) (auto simp: min_def)

lemma damerau_osa_le_levenshtein: "damerau_osa xs ys \<le> levenshtein xs ys"
proof (induction xs ys rule: levenshtein.induct)
  case (1 ys)
  then show ?case by simp
next
  case (2 x xs)
  then show ?case by simp
next
  case (3 x xs y ys)
  have "damerau_osa (x # xs) (y # ys) \<le>
     min (min (damerau_osa xs (y # ys) + 1) (damerau_osa (x # xs) ys + 1))
         (damerau_osa xs ys + (if x = y then 0 else 1))"
    by (cases xs; cases ys) (auto simp: Let_def min_le_iff_disj)
  also have "\<dots> \<le> min (min (levenshtein xs (y # ys) + 1) (levenshtein (x # xs) ys + 1))
         (levenshtein xs ys + (if x = y then 0 else 1))"
    using 3 by (simp add: min_def)
  finally show ?case by simp
qed

lemma lookup_term_in_words:
  "s \<in> set (lookup distance words phrase m) \<Longrightarrow> fst s \<in> set words"
  by (auto simp: lookup_def Let_def split: if_splits)

lemma lookup_term_close:
  "s \<in> set (lookup distance words phrase m) \<Longrightarrow>
   fst s = phrase \<or> int (distance phrase (fst s)) \<le> m"
  by (auto simp: lookup_def Let_def split: if_splits)

lemma lookup_nonempty:
  assumes "w \<in> set words" and "int (distance phrase w) \<le> m"
  shows "lookup distance words phrase m \<noteq> []"
proof -
  define cands where "cands = filter (\<lambda>w. int (distance phrase w) \<le> m) words"
  define least where "least = min_list (map (distance phrase) cands)"
  have ne: "cands \<noteq> []"
    using assms by (auto simp: cands_def filter_empty_conv)
  then have "least \<in> set (map (distance phrase) cands)"
    unfolding least_def by (simp add: min_list_Min del: set_map)
  then obtain v where "v \<in> set cands" and "distance phrase v = least"
    by auto
  then have "filter (\<lambda>w. distance phrase w = least) cands \<noteq> []"
    by (auto simp: filter_empty_conv)
  with ne show ?thesis
    by (simp add: lookup_def Let_def cands_def [symmetric] least_def [symmetric])
qed

subsection \<open>Card Resolver\<close>

lemma find_dotdot_marker:
  "find_dotdot t = Some i \<Longrightarrow>
   i + 1 < length t \<and> t ! i = CHR ''.'' \<and> t ! (i + 1) = CHR ''.''"
proof (induction t arbitrary: i rule: find_dotdot.induct)
  case (1 a b r)
  show ?case
  proof (cases "a = CHR ''.'' \<and> b = CHR ''.''")
    case True
    with 1 show ?thesis by auto
  next
    case False
    with "1.prems" obtain j where j: "find_dotdot (b # r) = Some j" and i: "i = Suc j"
      by auto
    from "1.IH" [OF False j] i show ?thesis by simp
  qed
qed simp_all

lemma search_prefix_result:
  "fst (search_prefix txt i cs best dst) = Some c \<Longrightarrow> c \<in> set cs \<or> best = Some c"
  by (induction cs arbitrary: best dst) (auto simp: Let_def split: if_splits)

lemma search_Some_in_all_cards:
  assumes "search self txt = Inr (Some c)"
  shows "c \<in> set (all_cards self)"
proof (cases "find_dotdot txt")
  case None
  let ?t = "rstrip_space (filter (\<lambda>c. c \<noteq> CHR ''.'') txt)"
  let ?sug = "lookup levenshtein (all_cards self) ?t
                (min 6 (py_int (max_ratio_diff self * of_nat (length ?t))))"
  show ?thesis
  proof (cases "txt \<in> set (all_cards self)")
    case True
    with assms show ?thesis by (simp add: search_def split: if_splits)
  next
    case False
    with assms None obtain s rest where sug: "?sug = s # rest" and c: "c = fst s"
      by (auto simp: search_def Let_def split: if_splits list.splits)
    have "s \<in> set ?sug" using sug by simp
    then show ?thesis using c lookup_term_in_words by blast
  qed
next
  case (Some i)
  with assms show ?thesis
    by (auto simp: search_def split: if_splits dest: search_prefix_result)
qed

text \<open>
  C8. For every text of length below 3 or above 30, \<^verbatim>\<open>search\<close> returns no match.
\<close>

theorem search_rejects_short_and_long:
  "length txt < 3 \<or> length txt > 30 \<Longrightarrow> search self txt = Inr None"
  by (auto simp: search_def)

theorem search_rejects_short_and_long_witness:
  "(length ''Ow'' < 3 \<or> length ''Ow'' > 30)
   \<and> search (MagicRecognition [''Ow'', ''Opt''] []) ''Ow'' = Inr None"
  using search_rejects_short_and_long [of "''Ow''" "MagicRecognition [''Ow'', ''Opt''] []"]
  by simp

text \<open>
  C1, as stated: every name of the card index is returned unchanged by \<^verbatim>\<open>search\<close>.
  The length guards of lines 138 to 142 come before the membership test of line 143, so
  a name of the index that has 31 characters is not returned.
\<close>

theorem search_exact_counterexample:
  "''Asmoranomardicadaistinaculdacar''
     \<in> set (all_cards (MagicRecognition [''Opt'', ''Asmoranomardicadaistinaculdacar''] []))
   \<and> search (MagicRecognition [''Opt'', ''Asmoranomardicadaistinaculdacar''] [])
        ''Asmoranomardicadaistinaculdacar'' = Inr None"
  by (simp add: search_def MagicRecognition_def)

text \<open>
  C1, amended: every name of the card index whose length is between 3 and 30 is returned
  unchanged by \<^verbatim>\<open>search\<close>, whatever the truncated or the fuzzy path would find.
\<close>

theorem search_exact:
  "txt \<in> set (all_cards self) \<Longrightarrow> 3 \<le> length txt \<Longrightarrow> length txt \<le> 30 \<Longrightarrow>
   search self txt = Inr (Some txt)"
  by (simp add: search_def)

theorem search_exact_witness:
  "''Opt'' \<in> set (all_cards (MagicRecognition [''Shock'', ''Opt''] []))
   \<and> 3 \<le> length ''Opt'' \<and> length ''Opt'' \<le> 30
   \<and> search (MagicRecognition [''Shock'', ''Opt''] []) ''Opt'' = Inr (Some ''Opt'')"
  using search_exact [of "''Opt''" "MagicRecognition [''Shock'', ''Opt''] []"]
  by (simp add: MagicRecognition_def)

lemma compare_accept:
  "(compare a b dst \<noteq> - 1 \<and> compare a b dst < dst) = (int (levenshtein a b) < dst)"
  by (auto simp: compare_def)

lemma compare_value:
  "int (levenshtein a b) < dst \<Longrightarrow> compare a b dst = int (levenshtein a b)"
  by (auto simp: compare_def)

lemma search_prefix_Cons:
  "search_prefix txt i (c # cs) best dst =
     (if prefix_distance txt i c < dst then search_prefix txt i cs (Some c) (prefix_distance txt i c)
      else search_prefix txt i cs best dst)"
  using compare_accept [of "take i txt" "take i c" dst] compare_value [of "take i txt" "take i c" dst]
  by (simp add: Let_def prefix_distance_def)

lemma search_prefix_spec:
  "search_prefix txt i cs best dst = (best', dst') \<Longrightarrow>
   (best' = best \<and> dst' = dst \<and> (\<forall>c \<in> set cs. dst \<le> prefix_distance txt i c))
   \<or> (\<exists>pre c post. cs = pre @ c # post \<and> best' = Some c \<and> dst' = prefix_distance txt i c
        \<and> prefix_distance txt i c < dst
        \<and> (\<forall>c' \<in> set pre. prefix_distance txt i c < prefix_distance txt i c')
        \<and> (\<forall>c' \<in> set post. prefix_distance txt i c \<le> prefix_distance txt i c'))"
proof (induction cs arbitrary: best dst)
  case Nil
  then show ?case by simp
next
  case (Cons c0 cs)
  let ?pd = "prefix_distance txt i"
  show ?case
  proof (cases "?pd c0 < dst")
    case True
    with Cons.prems have "search_prefix txt i cs (Some c0) (?pd c0) = (best', dst')"
      by (simp add: search_prefix_Cons del: search_prefix.simps)
    from Cons.IH [OF this] show ?thesis
    proof
      assume "best' = Some c0 \<and> dst' = ?pd c0 \<and> (\<forall>c \<in> set cs. ?pd c0 \<le> ?pd c)"
      with True have "c0 # cs = [] @ c0 # cs \<and> best' = Some c0 \<and> dst' = ?pd c0 \<and> ?pd c0 < dst
        \<and> (\<forall>c' \<in> set []. ?pd c0 < ?pd c') \<and> (\<forall>c' \<in> set cs. ?pd c0 \<le> ?pd c')"
        by simp
      then show ?thesis by blast
    next
      assume "\<exists>pre c post. cs = pre @ c # post \<and> best' = Some c \<and> dst' = ?pd c
        \<and> ?pd c < ?pd c0 \<and> (\<forall>c' \<in> set pre. ?pd c < ?pd c') \<and> (\<forall>c' \<in> set post. ?pd c \<le> ?pd c')"
      then obtain pre c post where p: "cs = pre @ c # post" "best' = Some c" "dst' = ?pd c"
        "?pd c < ?pd c0" "\<forall>c' \<in> set pre. ?pd c < ?pd c'" "\<forall>c' \<in> set post. ?pd c \<le> ?pd c'"
        by blast
      with True have "c0 # cs = (c0 # pre) @ c # post \<and> best' = Some c \<and> dst' = ?pd c \<and> ?pd c < dst
        \<and> (\<forall>c' \<in> set (c0 # pre). ?pd c < ?pd c') \<and> (\<forall>c' \<in> set post. ?pd c \<le> ?pd c')"
        by simp
      then show ?thesis by blast
    qed
  next
    case False
    with Cons.prems have "search_prefix txt i cs best dst = (best', dst')"
      by (simp add: search_prefix_Cons del: search_prefix.simps)
    from Cons.IH [OF this] show ?thesis
    proof
      assume "best' = best \<and> dst' = dst \<and> (\<forall>c \<in> set cs. dst \<le> ?pd c)"
      with False show ?thesis by simp
    next
      assume "\<exists>pre c post. cs = pre @ c # post \<and> best' = Some c \<and> dst' = ?pd c
        \<and> ?pd c < dst \<and> (\<forall>c' \<in> set pre. ?pd c < ?pd c') \<and> (\<forall>c' \<in> set post. ?pd c \<le> ?pd c')"
      then obtain pre c post where p: "cs = pre @ c # post" "best' = Some c" "dst' = ?pd c"
        "?pd c < dst" "\<forall>c' \<in> set pre. ?pd c < ?pd c'" "\<forall>c' \<in> set post. ?pd c \<le> ?pd c'"
        by blast
      with False have "c0 # cs = (c0 # pre) @ c # post \<and> best' = Some c \<and> dst' = ?pd c \<and> ?pd c < dst
        \<and> (\<forall>c' \<in> set (c0 # pre). ?pd c < ?pd c') \<and> (\<forall>c' \<in> set post. ?pd c \<le> ?pd c')"
        by simp
      then show ?thesis by blast
    qed
  qed
qed

text \<open>
  C2, as stated: on the truncated path the returned card's prefix distance is strictly
  less than that of every other card of the index. The loop of lines 149 to 153 replaces
  its candidate only by a strictly closer one, so a later card at the same distance as
  the returned one stays in the index: both \<^verbatim>\<open>Shock\<close> and \<^verbatim>\<open>Shocker\<close> are at distance 0
  from \<^verbatim>\<open>Shoc\<close>, and the first of them is returned.
\<close>

theorem search_truncated_counterexample:
  "search (MagicRecognition [''Shock'', ''Shocker''] []) ''Shoc..'' = Inr (Some ''Shock'')
   \<and> find_dotdot ''Shoc..'' = Some 4
   \<and> ''Shocker'' \<in> set (all_cards (MagicRecognition [''Shock'', ''Shocker''] []))
   \<and> ''Shocker'' \<noteq> ''Shock''
   \<and> \<not> prefix_distance ''Shoc..'' 4 ''Shock'' < prefix_distance ''Shoc..'' 4 ''Shocker''"
  by code_simp

text \<open>
  C2, amended: when the text (of length 3 to 30, not itself a card) has its first
  two-period marker at index \<open>i\<close>, \<^verbatim>\<open>search\<close> never raises and never reaches the fuzzy
  lookup. Either it returns a card whose prefix distance over the first \<open>i\<close> characters is
  strictly less than \<open>int(max_ratio_diff * i)\<close>, strictly less than the prefix distance of
  every card enumerated before it, and at most the prefix distance of every card
  enumerated after it; or it returns no match, and then no card of the index has a
  prefix distance below \<open>int(max_ratio_diff * i)\<close>.
\<close>

theorem search_truncated:
  assumes "3 \<le> length txt" and "length txt \<le> 30" and "txt \<notin> set (all_cards self)"
    and "find_dotdot txt = Some i"
  shows "case search self txt of
           Inl e \<Rightarrow> False
         | Inr None \<Rightarrow>
             \<forall>c \<in> set (all_cards self).
               py_int (max_ratio_diff self * of_nat i) \<le> prefix_distance txt i c
         | Inr (Some c) \<Rightarrow>
             prefix_distance txt i c < py_int (max_ratio_diff self * of_nat i)
             \<and> (\<exists>pre post. all_cards self = pre @ c # post
                  \<and> (\<forall>c' \<in> set pre. prefix_distance txt i c < prefix_distance txt i c')
                  \<and> (\<forall>c' \<in> set post. prefix_distance txt i c \<le> prefix_distance txt i c'))"
proof -
  define thr where "thr = py_int (max_ratio_diff self * of_nat i)"
  obtain best' dst' where r: "search_prefix txt i (all_cards self) None thr = (best', dst')"
    by (cases "search_prefix txt i (all_cards self) None thr") auto
  have s: "search self txt = Inr best'"
    using assms r by (simp add: search_def thr_def)
  from search_prefix_spec [OF r] show ?thesis
  proof
    assume "best' = None \<and> dst' = thr
      \<and> (\<forall>c \<in> set (all_cards self). thr \<le> prefix_distance txt i c)"
    then show ?thesis
      unfolding s thr_def [symmetric] by simp
  next
    assume "\<exists>pre c post. all_cards self = pre @ c # post \<and> best' = Some c
        \<and> dst' = prefix_distance txt i c \<and> prefix_distance txt i c < thr
        \<and> (\<forall>c' \<in> set pre. prefix_distance txt i c < prefix_distance txt i c')
        \<and> (\<forall>c' \<in> set post. prefix_distance txt i c \<le> prefix_distance txt i c')"
    then obtain pre c post where p: "all_cards self = pre @ c # post" "best' = Some c"
        "prefix_distance txt i c < thr"
        "\<forall>c' \<in> set pre. prefix_distance txt i c < prefix_distance txt i c'"
        "\<forall>c' \<in> set post. prefix_distance txt i c \<le> prefix_distance txt i c'"
      by blast
    then have "\<exists>pre post. all_cards self = pre @ c # post
        \<and> (\<forall>c' \<in> set pre. prefix_distance txt i c < prefix_distance txt i c')
        \<and> (\<forall>c' \<in> set post. prefix_distance txt i c \<le> prefix_distance txt i c')"
      by blast
    with p(2,3) show ?thesis
      unfolding s thr_def [symmetric] by simp
  qed
qed

theorem search_truncated_witness:
  "search (MagicRecognition [''Shocker'', ''Opt'', ''Shock''] []) ''Shoc..'' = Inr (Some ''Shocker'')
   \<and> prefix_distance ''Shoc..'' 4 ''Shocker''
       < py_int (max_ratio_diff (MagicRecognition [''Shocker'', ''Opt'', ''Shock''] []) * of_nat 4)"
proof -
  let ?m = "MagicRecognition [''Shocker'', ''Opt'', ''Shock''] []"
  have v: "search ?m ''Shoc..'' = Inr (Some ''Shocker'')"
    by code_simp
  have h1: "3 \<le> length ''Shoc..''" and h2: "length ''Shoc..'' \<le> 30"
    by simp_all
  have h3: "''Shoc..'' \<notin> set (all_cards ?m)"
    by (simp add: MagicRecognition_def)
  have h4: "find_dotdot ''Shoc..'' = Some 4"
    by simp
  from search_truncated [OF h1 h2 h3 h4] show ?thesis
    unfolding v by simp
qed

lemma length_rstrip_space: "length (rstrip_space s) \<le> length s"
  using length_dropWhile_le [of "\<lambda>c. c = CHR '' ''" "rev s"]
  by (simp add: rstrip_space_def)

text \<open>
  C3. On the fuzzy path (no marker, text not itself a card), every card that \<^verbatim>\<open>search\<close>
  returns is shorter than the length of the text plus 7, whether the length is taken
  after or before periods and trailing spaces are stripped; so a card of exactly that
  length is never returned. The bound comes from the lookup, whose edit distance is at
  most 6. The test of line 166 bounds the other side: the stripped text is shorter than
  the length of the card plus 7.
\<close>

theorem search_fuzzy_candidate_length:
  assumes "find_dotdot txt = None" and "txt \<notin> set (all_cards self)"
    and "search self txt = Inr (Some c)"
  shows "length c < length (rstrip_space (filter (\<lambda>ch. ch \<noteq> CHR ''.'') txt)) + 7
         \<and> length c < length txt + 7
         \<and> length (rstrip_space (filter (\<lambda>ch. ch \<noteq> CHR ''.'') txt)) < length c + 7"
proof -
  let ?t = "rstrip_space (filter (\<lambda>ch. ch \<noteq> CHR ''.'') txt)"
  let ?m = "min 6 (py_int (max_ratio_diff self * of_nat (length ?t)))"
  let ?sug = "lookup levenshtein (all_cards self) ?t ?m"
  from assms obtain s rest where sug: "?sug = s # rest" and c: "c = fst s"
    and guard: "length ?t < length c + 7"
    by (auto simp: search_def Let_def split: if_splits list.splits)
  have "s \<in> set ?sug" using sug by simp
  then have "fst s = ?t \<or> int (levenshtein ?t (fst s)) \<le> ?m"
    by (rule lookup_term_close)
  then have "length c \<le> length ?t + 6"
  proof
    assume "fst s = ?t"
    then show ?thesis using c by simp
  next
    assume "int (levenshtein ?t (fst s)) \<le> ?m"
    then have "levenshtein ?t c \<le> 6" using c by simp
    with levenshtein_length_bounds [of ?t c] show ?thesis by simp
  qed
  moreover have "length ?t \<le> length txt"
    by (rule order_trans [OF length_rstrip_space length_filter_le])
  ultimately show ?thesis using guard by simp
qed

theorem search_fuzzy_candidate_length_witness:
  "search (MagicRecognition [''Shock'', ''Opt''] []) ''Optt'' = Inr (Some ''Opt'')
   \<and> length ''Opt'' < length ''Optt'' + 7"
proof -
  let ?m = "MagicRecognition [''Shock'', ''Opt''] []"
  have v: "search ?m ''Optt'' = Inr (Some ''Opt'')"
    by code_simp
  have h1: "find_dotdot ''Optt'' = None"
    by simp
  have h2: "''Optt'' \<notin> set (all_cards ?m)"
    by (simp add: MagicRecognition_def)
  from search_fuzzy_candidate_length [OF h1 h2 v] have "length ''Opt'' < length ''Optt'' + 7"
    by blast
  with v show ?thesis by blast
qed

subsection \<open>Names of the output\<close>

lemma box_texts_to_cards_loop_texts:
  "box_texts_to_cards_loop self acc bts = Inr bc \<Longrightarrow>
   bt_text ` set bc \<subseteq> bt_text ` set acc \<union> set (all_cards self)"
proof (induction bts arbitrary: acc)
  case Nil
  then show ?case by auto
next
  case (Cons bt rest)
  let ?sug = "lookup damerau_osa (sym_keywords self) (bt_text bt)
      (min 3 (py_int (max_ratio_diff_keyword self * of_nat (length (bt_text bt)))))"
  show ?case
  proof (cases "?sug \<noteq> []")
    case True
    with Cons.prems have "box_texts_to_cards_loop self acc rest = Inr bc"
      by (simp add: Let_def split: if_splits)
    then show ?thesis by (rule Cons.IH)
  next
    case False
    show ?thesis
    proof (cases "search self (preprocess (bt_text bt))")
      case (Inl e)
      with False Cons.prems show ?thesis by (simp add: Let_def)
    next
      case (Inr r)
      show ?thesis
      proof (cases r)
        case None
        with Inr False Cons.prems have "box_texts_to_cards_loop self acc rest = Inr bc"
          by (simp add: Let_def)
        then show ?thesis by (rule Cons.IH)
      next
        case (Some c)
        with Inr have "c \<in> set (all_cards self)"
          using search_Some_in_all_cards by blast
        moreover from Some Inr False Cons.prems
        have "box_texts_to_cards_loop self
                (acc @ [\<lparr>bt_box = bt_box bt, bt_text = c, bt_n = 1\<rparr>]) rest = Inr bc"
          by (simp add: Let_def)
        then have "bt_text ` set bc \<subseteq>
            bt_text ` set (acc @ [\<lparr>bt_box = bt_box bt, bt_text = c, bt_n = 1\<rparr>]) \<union> set (all_cards self)"
          by (rule Cons.IH)
        ultimately show ?thesis by auto
      qed
    qed
  qed
qed

lemma assign_stacked_one_texts:
  "assign_stacked_one bc m cmp = Inr bc' \<Longrightarrow> map bt_text bc' = map bt_text bc"
  by (auto simp: assign_stacked_one_def Let_def map_update split: if_splits
      intro!: nth_equalityI simp: nth_list_update)

lemma assign_stacked_label_texts:
  "assign_stacked_label b t i bc = Inr bc' \<Longrightarrow> map bt_text bc' = map bt_text bc"
  by (auto simp: assign_stacked_label_def split: if_splits sum.splits
      dest: assign_stacked_one_texts)

lemma assign_stacked_texts:
  "assign_stacked bts bc = Inr bc' \<Longrightarrow> map bt_text bc' = map bt_text bc"
proof (induction bts arbitrary: bc)
  case Nil
  then show ?case by simp
next
  case (Cons bt rest)
  show ?case
  proof (cases "length (bt_text bt) = 2")
    case False
    with Cons show ?thesis by simp
  next
    case True
    with Cons.prems obtain b1 b2 where
      1: "assign_stacked_label (bt_box bt) (bt_text bt) 0 bc = Inr b1" and
      2: "assign_stacked_label (bt_box bt) (bt_text bt) 1 b1 = Inr b2" and
      3: "assign_stacked rest b2 = Inr bc'"
      by (auto split: sum.splits)
    from Cons.IH [OF 3] assign_stacked_label_texts [OF 2] assign_stacked_label_texts [OF 1]
    show ?thesis by simp
  qed
qed

lemma pile_keys_pile_incr: "pile_keys (pile_incr pl c p) = pile_keys pl"
  by (induction pl c p rule: pile_incr.induct) (auto simp: pile_keys_def)

lemma pile_keys_add_cards: "pile_keys (add_cards pl c p) \<subseteq> insert c (pile_keys pl)"
  using pile_keys_pile_incr [of pl c p] by (auto simp: add_cards_def pile_keys_def)

lemma assemble_loop_keys:
  "assemble_loop l bc (md, sb, a) = (md', sb', a') \<Longrightarrow>
   pile_keys md' \<subseteq> pile_keys md \<union> bt_text ` set bc \<and>
   pile_keys sb' \<subseteq> pile_keys sb \<union> bt_text ` set bc"
proof (induction bc arbitrary: md sb a)
  case Nil
  then show ?case by simp
next
  case (Cons x rest)
  define k where "k = max (min (bt_n x) (l - a)) 0"
  from Cons.prems have
    "assemble_loop l rest (add_cards md (bt_text x) k, add_cards sb (bt_text x) (bt_n x - k), a + bt_n x)
       = (md', sb', a')"
    by (simp add: Let_def k_def)
  from Cons.IH [OF this]
    pile_keys_add_cards [of md "bt_text x" k]
    pile_keys_add_cards [of sb "bt_text x" "bt_n x - k"]
  show ?case by auto
qed

lemma assemble_deck_keys:
  "pile_keys (maindeck (assemble_deck bc)) \<subseteq> bt_text ` set bc \<and>
   pile_keys (sideboard (assemble_deck bc)) \<subseteq> bt_text ` set bc"
proof -
  define l where "l = max 60 (sum_list (map bt_n bc) - 15)"
  obtain md sb a where r: "assemble_loop l bc ([], [], 0) = (md, sb, a)"
    by (cases "assemble_loop l bc ([], [], 0)") auto
  from assemble_loop_keys [OF r] have "pile_keys md \<subseteq> bt_text ` set bc \<and> pile_keys sb \<subseteq> bt_text ` set bc"
    by (simp add: pile_keys_def)
  with r show ?thesis by (simp add: assemble_deck_def Let_def l_def)
qed

text \<open>
  C9. Every card name that \<^verbatim>\<open>search\<close> returns is a card of the index; so is the text of
  every box that \<^verbatim>\<open>box_texts_to_cards\<close> emits, and so is every key of the maindeck and of
  the sideboard that \<^verbatim>\<open>box_texts_to_stacked_cards\<close> returns.
\<close>

theorem resolved_names_in_all_cards:
  "(search self txt = Inr (Some c) \<longrightarrow> c \<in> set (all_cards self))
   \<and> (box_texts_to_cards self box_texts = Inr box_cards \<longrightarrow>
        bt_text ` set box_cards \<subseteq> set (all_cards self))
   \<and> (box_texts_to_stacked_cards self box_texts = Inr d \<longrightarrow>
        pile_keys (maindeck d) \<union> pile_keys (sideboard d) \<subseteq> set (all_cards self))"
proof (intro conjI impI)
  assume "search self txt = Inr (Some c)"
  then show "c \<in> set (all_cards self)" by (rule search_Some_in_all_cards)
next
  assume "box_texts_to_cards self box_texts = Inr box_cards"
  then show "bt_text ` set box_cards \<subseteq> set (all_cards self)"
    using box_texts_to_cards_loop_texts [of self "[]" box_texts box_cards]
    by (simp add: box_texts_to_cards_def)
next
  assume a: "box_texts_to_stacked_cards self box_texts = Inr d"
  then obtain bc bc' where
    1: "box_texts_to_cards_loop self [] (sort_box_texts box_texts) = Inr bc" and
    2: "assign_stacked (sort_box_texts box_texts) bc = Inr bc'" and
    3: "d = assemble_deck bc'"
    by (auto simp: box_texts_to_stacked_cards_def box_texts_to_cards_def Let_def split: sum.splits)
  have "bt_text ` set bc \<subseteq> set (all_cards self)"
    using box_texts_to_cards_loop_texts [OF 1] by simp
  moreover have "set (map bt_text bc') = set (map bt_text bc)"
    using assign_stacked_texts [OF 2] by simp
  then have "bt_text ` set bc' = bt_text ` set bc" by simp
  ultimately show "pile_keys (maindeck d) \<union> pile_keys (sideboard d) \<subseteq> set (all_cards self)"
    using assemble_deck_keys [of bc'] 3 by auto
qed

theorem resolved_names_in_all_cards_witness:
  "search (MagicRecognition [''Shock'', ''Opt''] [''Flying'']) ''Opt'' = Inr (Some ''Opt'')
   \<and> ''Opt'' \<in> set (all_cards (MagicRecognition [''Shock'', ''Opt''] [''Flying'']))
   \<and> box_texts_to_stacked_cards (MagicRecognition [''Shock'', ''Opt''] [''Flying''])
        [\<lparr>bt_box = (0, 0), bt_text = ''Opt'', bt_n = 1\<rparr>,
         \<lparr>bt_box = (0, 5), bt_text = ''x4'', bt_n = 1\<rparr>]
       = Inr \<lparr>maindeck = [(''Opt'', 4)], sideboard = []\<rparr>
   \<and> pile_keys [(''Opt'', 4)] \<union> pile_keys []
       \<subseteq> set (all_cards (MagicRecognition [''Shock'', ''Opt''] [''Flying'']))"
proof -
  let ?m = "MagicRecognition [''Shock'', ''Opt''] [''Flying'']"
  let ?bts = "[\<lparr>bt_box = (0, 0), bt_text = ''Opt'', bt_n = 1\<rparr>,
               \<lparr>bt_box = (0, 5), bt_text = ''x4'', bt_n = 1\<rparr>]"
  let ?bc = "[\<lparr>bt_box = (0, 0), bt_text = ''Opt'', bt_n = 1\<rparr>]"
  let ?d = "\<lparr>maindeck = [(''Opt'', 4)], sideboard = []\<rparr>"
  have v1: "search ?m ''Opt'' = Inr (Some ''Opt'')"
    by code_simp
  have v2: "box_texts_to_cards ?m ?bts = Inr ?bc"
    by code_simp
  have v3: "box_texts_to_stacked_cards ?m ?bts = Inr ?d"
    by code_simp
  note t = resolved_names_in_all_cards [of ?m "''Opt''" "''Opt''" ?bts ?bc ?d]
  from t v1 have "''Opt'' \<in> set (all_cards ?m)"
    by blast
  moreover from t v3 have "pile_keys (maindeck ?d) \<union> pile_keys (sideboard ?d) \<subseteq> set (all_cards ?m)"
    by blast
  ultimately show ?thesis
    using v1 v3 by simp
qed

subsection \<open>Counts of the resolved boxes\<close>

text \<open>
  Every count that reaches the Deck Assembler is 1 (the default) or the value of a
  decimal digit, hence not negative.
\<close>

lemma box_texts_to_cards_loop_counts:
  "box_texts_to_cards_loop self acc bts = Inr bc \<Longrightarrow>
   \<forall>b \<in> set acc. 0 \<le> bt_n b \<Longrightarrow> \<forall>b \<in> set bc. 0 \<le> bt_n b"
proof (induction bts arbitrary: acc)
  case Nil
  then show ?case by simp
next
  case (Cons bt rest)
  from Cons.prems(1) consider
    (skip) "box_texts_to_cards_loop self acc rest = Inr bc"
  | (add) c where "box_texts_to_cards_loop self
                     (acc @ [\<lparr>bt_box = bt_box bt, bt_text = c, bt_n = 1\<rparr>]) rest = Inr bc"
    by (auto simp: Let_def split: if_splits sum.splits option.splits)
  then show ?case
  proof cases
    case skip
    from Cons.IH [OF skip Cons.prems(2)] show ?thesis .
  next
    case add
    have "\<forall>b \<in> set (acc @ [\<lparr>bt_box = bt_box bt, bt_text = c, bt_n = 1\<rparr>]). 0 \<le> bt_n b"
      using Cons.prems(2) by simp
    from Cons.IH [OF add this] show ?thesis .
  qed
qed

lemma int_of_char_nonneg: "int_of_char c = Inr m \<Longrightarrow> 0 \<le> m"
  by (auto simp: int_of_char_def isdecimal_def split: if_splits)

lemma assign_stacked_one_counts:
  assumes "assign_stacked_one bc m cmp = Inr bc'" and "0 \<le> m" and "\<forall>b \<in> set bc. 0 \<le> bt_n b"
  shows "\<forall>b \<in> set bc'. 0 \<le> bt_n b"
proof -
  define k where "k = i_min_loop cmp bc"
  from assms(1) have bc': "bc' = bc[k := (bc ! k)\<lparr>bt_n := m\<rparr>]"
    by (simp add: assign_stacked_one_def Let_def k_def split: if_splits)
  have "set bc' \<subseteq> insert ((bc ! k)\<lparr>bt_n := m\<rparr>) (set bc)"
    unfolding bc' by (rule set_update_subset_insert)
  with assms(2,3) show ?thesis by auto
qed

lemma assign_stacked_label_counts:
  "assign_stacked_label b t i bc = Inr bc' \<Longrightarrow> \<forall>x \<in> set bc. 0 \<le> bt_n x \<Longrightarrow>
   \<forall>x \<in> set bc'. 0 \<le> bt_n x"
  by (auto simp: assign_stacked_label_def split: if_splits sum.splits
      dest!: int_of_char_nonneg dest: assign_stacked_one_counts)

lemma assign_stacked_counts:
  "assign_stacked bts bc = Inr bc' \<Longrightarrow> \<forall>x \<in> set bc. 0 \<le> bt_n x \<Longrightarrow>
   \<forall>x \<in> set bc'. 0 \<le> bt_n x"
proof (induction bts arbitrary: bc)
  case Nil
  then show ?case by simp
next
  case (Cons bt rest)
  show ?case
  proof (cases "length (bt_text bt) = 2")
    case False
    with Cons show ?thesis by simp
  next
    case True
    with Cons.prems(1) obtain b1 b2 where
      1: "assign_stacked_label (bt_box bt) (bt_text bt) 0 bc = Inr b1" and
      2: "assign_stacked_label (bt_box bt) (bt_text bt) 1 b1 = Inr b2" and
      3: "assign_stacked rest b2 = Inr bc'"
      by (auto split: sum.splits)
    from assign_stacked_label_counts [OF 1 Cons.prems(2)]
    have "\<forall>x \<in> set b1. 0 \<le> bt_n x" .
    from assign_stacked_label_counts [OF 2 this]
    have "\<forall>x \<in> set b2. 0 \<le> bt_n x" .
    from Cons.IH [OF 3 this] show ?thesis .
  qed
qed

lemma resolved_counts_nonneg:
  assumes "box_texts_to_cards self box_texts = Inr box_cards"
    and "assign_stacked box_texts' box_cards = Inr box_cards'"
  shows "\<forall>b \<in> set box_cards'. 0 \<le> bt_n b"
proof -
  have "\<forall>b \<in> set box_cards. 0 \<le> bt_n b"
    using box_texts_to_cards_loop_counts [of self "[]" box_texts box_cards] assms(1)
    by (simp add: box_texts_to_cards_def)
  with assms(2) show ?thesis by (rule assign_stacked_counts)
qed

subsection \<open>Deck Assembler\<close>

lemma pile_incr_zero: "pile_incr pl c 0 = pl"
  by (induction pl c "0::int" rule: pile_incr.induct) auto

lemma add_cards_zero: "add_cards pl c 0 = pl"
  by (simp add: add_cards_def pile_incr_zero)

lemma pile_total_pile_incr:
  "c \<in> pile_keys pl \<Longrightarrow> pile_total (pile_incr pl c p) = pile_total pl + p"
  by (induction pl c p rule: pile_incr.induct) (auto simp: pile_keys_def pile_total_def)

lemma pile_total_add_cards:
  "0 \<le> p \<Longrightarrow> pile_total (add_cards pl c p) = pile_total pl + p"
  using pile_total_pile_incr [of c pl p]
  by (auto simp: add_cards_def pile_keys_def pile_total_def)

lemma add_cards_eq_merge: "0 \<le> p \<Longrightarrow> add_cards pl c p = merge_by_name pl c p"
  by (auto simp: add_cards_def merge_by_name_def pile_keys_def pile_incr_zero)

lemma assemble_loop_eq_spec:
  "\<forall>bc \<in> set box_cards. 0 \<le> bt_n bc \<Longrightarrow>
   assemble_loop l box_cards (md, sb, a) = assemble_spec_loop l box_cards (md, sb, a)"
proof (induction box_cards arbitrary: md sb a)
  case Nil
  then show ?case by simp
next
  case (Cons x rest)
  have n: "0 \<le> bt_n x" using Cons.prems by simp
  have k: "max (min (bt_n x) (l - a)) 0 = min (bt_n x) (max (l - a) 0)"
    using n by (simp add: min_def max_def)
  have k0: "0 \<le> min (bt_n x) (max (l - a) 0)" using n by simp
  have k1: "0 \<le> bt_n x - min (bt_n x) (max (l - a) 0)" by simp
  show ?case
    using Cons.IH Cons.prems
    by (simp add: Let_def k add_cards_eq_merge [OF k0] add_cards_eq_merge [OF k1])
qed

lemma assemble_loop_totals:
  "\<forall>bc \<in> set box_cards. 0 \<le> bt_n bc \<Longrightarrow>
   assemble_loop l box_cards (md, sb, a) = (md', sb', a') \<Longrightarrow>
   pile_total md' = pile_total md + (min (a + sum_list (map bt_n box_cards)) l - min a l)
   \<and> pile_total md' + pile_total sb' = pile_total md + pile_total sb + sum_list (map bt_n box_cards)"
proof (induction box_cards arbitrary: md sb a)
  case Nil
  then show ?case by simp
next
  case (Cons x rest)
  define k where "k = max (min (bt_n x) (l - a)) 0"
  have n: "0 \<le> bt_n x" using Cons.prems(1) by simp
  have k0: "0 \<le> k" and k1: "0 \<le> bt_n x - k"
    using n by (simp_all add: k_def)
  have kv: "k = min (a + bt_n x) l - min a l"
    using n by (simp add: k_def min_def max_def)
  from Cons.prems(2) have
    step: "assemble_loop l rest (add_cards md (bt_text x) k, add_cards sb (bt_text x) (bt_n x - k), a + bt_n x)
       = (md', sb', a')"
    by (simp add: Let_def k_def)
  have rest: "\<forall>bc \<in> set rest. 0 \<le> bt_n bc" using Cons.prems(1) by simp
  have A: "pile_total (add_cards md (bt_text x) k) = pile_total md + k"
    by (rule pile_total_add_cards [OF k0])
  have B: "pile_total (add_cards sb (bt_text x) (bt_n x - k)) = pile_total sb + (bt_n x - k)"
    by (rule pile_total_add_cards [OF k1])
  have C: "a + bt_n x + sum_list (map bt_n rest) = a + sum_list (map bt_n (x # rest))"
    by simp
  have D: "sum_list (map bt_n (x # rest)) = bt_n x + sum_list (map bt_n rest)"
    by simp
  from Cons.IH [OF rest step]
  have "pile_total md' =
          pile_total md + k + (min (a + sum_list (map bt_n (x # rest))) l - min (a + bt_n x) l)
        \<and> pile_total md' + pile_total sb' =
          pile_total md + k + (pile_total sb + (bt_n x - k)) + sum_list (map bt_n rest)"
    unfolding A B C .
  then show ?case
    unfolding D using kv by linarith
qed

lemma assemble_loop_sideboard_kept:
  "\<forall>bc \<in> set box_cards. 0 \<le> bt_n bc \<Longrightarrow>
   a + sum_list (map bt_n box_cards) \<le> l \<Longrightarrow>
   assemble_loop l box_cards (md, sb, a) = (md', sb', a') \<Longrightarrow> sb' = sb"
proof (induction box_cards arbitrary: md sb a)
  case Nil
  then show ?case by simp
next
  case (Cons x rest)
  have n: "0 \<le> bt_n x" using Cons.prems(1) by simp
  have rest: "\<forall>bc \<in> set rest. 0 \<le> bt_n bc" using Cons.prems(1) by simp
  have s: "0 \<le> sum_list (map bt_n rest)"
    using rest by (induction rest) auto
  have k: "max (min (bt_n x) (l - a)) 0 = bt_n x"
    using n s Cons.prems(2) by (simp add: min_def max_def)
  from Cons.prems(3) have
    step: "assemble_loop l rest (add_cards md (bt_text x) (bt_n x), sb, a + bt_n x) = (md', sb', a')"
    by (simp add: Let_def k add_cards_zero)
  have "a + bt_n x + sum_list (map bt_n rest) \<le> l" using Cons.prems(2) by simp
  from Cons.IH [OF rest this step] show ?case .
qed

text \<open>
  C5. For every resolved list (all counts non-negative, as lemma \<open>resolved_counts_nonneg\<close>
  shows of the lists that the pipeline assembles), the quantities of the maindeck and of
  the sideboard add up to the sum of the counts; and when that sum is at most 60, the
  maindeck holds all of it and the sideboard is empty.
\<close>

theorem deck_split_conservation:
  assumes "\<forall>bc \<in> set box_cards. 0 \<le> bt_n bc"
  shows "pile_total (maindeck (assemble_deck box_cards))
           + pile_total (sideboard (assemble_deck box_cards)) = sum_list (map bt_n box_cards)
         \<and> (sum_list (map bt_n box_cards) \<le> 60 \<longrightarrow>
              pile_total (maindeck (assemble_deck box_cards)) = sum_list (map bt_n box_cards)
              \<and> sideboard (assemble_deck box_cards) = [])"
proof -
  define total where "total = sum_list (map bt_n box_cards)"
  define l where "l = max 60 (total - 15)"
  obtain md sb a where r: "assemble_loop l box_cards ([], [], 0) = (md, sb, a)"
    by (cases "assemble_loop l box_cards ([], [], 0)") auto
  have d: "assemble_deck box_cards = \<lparr>maindeck = md, sideboard = sb\<rparr>"
    using r by (simp add: assemble_deck_def Let_def l_def total_def)
  from assemble_loop_totals [OF assms r]
  have t: "pile_total md + pile_total sb = total"
    by (simp add: pile_total_def total_def)
  have "total \<le> 60 \<longrightarrow> pile_total md = total \<and> sb = []"
  proof
    assume le: "total \<le> 60"
    then have "0 + sum_list (map bt_n box_cards) \<le> l" by (simp add: l_def total_def)
    from assemble_loop_sideboard_kept [OF assms this r] have "sb = []" .
    with t show "pile_total md = total \<and> sb = []" by (simp add: pile_total_def)
  qed
  with t d show ?thesis by (simp add: total_def)
qed

theorem deck_split_conservation_witness:
  "pile_total (maindeck (assemble_deck
       [\<lparr>bt_box = (0, 0), bt_text = ''Opt'', bt_n = 4\<rparr>,
        \<lparr>bt_box = (0, 1), bt_text = ''Shock'', bt_n = 2\<rparr>])) = 6
   \<and> sideboard (assemble_deck
       [\<lparr>bt_box = (0, 0), bt_text = ''Opt'', bt_n = 4\<rparr>,
        \<lparr>bt_box = (0, 1), bt_text = ''Shock'', bt_n = 2\<rparr>]) = []"
proof -
  let ?l = "[\<lparr>bt_box = (0, 0), bt_text = ''Opt'', bt_n = 4\<rparr>,
             \<lparr>bt_box = (0, 1), bt_text = ''Shock'', bt_n = 2\<rparr>]"
  have h: "\<forall>bc \<in> set ?l. 0 \<le> bt_n bc"
    by simp
  have "sum_list (map bt_n ?l) = 6"
    by simp
  with deck_split_conservation [OF h] show ?thesis
    by simp
qed

text \<open>
  C6. For every resolved list (all counts non-negative), the deck that the code assembles
  is the deck of the specification's rule: \<open>last_main_card = max(60, total - 15)\<close>,
  \<open>min(n, max(last_main_card - added, 0))\<close> copies of each entry to the maindeck in list
  order, the remainder to the sideboard, quantities merged by name. With 65 units in
  all, the maindeck receives 60 of them and the sideboard 5.
\<close>

theorem assemble_deck_refines_spec:
  assumes "\<forall>bc \<in> set box_cards. 0 \<le> bt_n bc"
  shows "assemble_deck box_cards = assemble_deck_spec box_cards
         \<and> (sum_list (map bt_n box_cards) = 65 \<longrightarrow>
              pile_total (maindeck (assemble_deck box_cards)) = 60
              \<and> pile_total (sideboard (assemble_deck box_cards)) = 5)"
proof -
  define total where "total = sum_list (map bt_n box_cards)"
  define l where "l = max 60 (total - 15)"
  obtain md sb a where r: "assemble_loop l box_cards ([], [], 0) = (md, sb, a)"
    by (cases "assemble_loop l box_cards ([], [], 0)") auto
  have d: "assemble_deck box_cards = \<lparr>maindeck = md, sideboard = sb\<rparr>"
    using r by (simp add: assemble_deck_def Let_def l_def total_def)
  have eq: "assemble_deck box_cards = assemble_deck_spec box_cards"
    using assemble_loop_eq_spec [OF assms]
    by (simp add: assemble_deck_def assemble_deck_spec_def)
  from assemble_loop_totals [OF assms r]
  have m: "pile_total md = min total l" and t: "pile_total md + pile_total sb = total"
    by (simp_all add: pile_total_def total_def l_def)
  have "total = 65 \<longrightarrow> pile_total md = 60 \<and> pile_total sb = 5"
    using m t by (auto simp: l_def)
  then have "sum_list (map bt_n box_cards) = 65 \<longrightarrow>
              pile_total (maindeck (assemble_deck box_cards)) = 60
              \<and> pile_total (sideboard (assemble_deck box_cards)) = 5"
    by (simp add: d total_def)
  with eq show ?thesis by (rule conjI)
qed

theorem assemble_deck_refines_spec_witness:
  "assemble_deck
       [\<lparr>bt_box = (0, 0), bt_text = ''Opt'', bt_n = 40\<rparr>,
        \<lparr>bt_box = (0, 1), bt_text = ''Shock'', bt_n = 25\<rparr>]
     = assemble_deck_spec
       [\<lparr>bt_box = (0, 0), bt_text = ''Opt'', bt_n = 40\<rparr>,
        \<lparr>bt_box = (0, 1), bt_text = ''Shock'', bt_n = 25\<rparr>]
   \<and> assemble_deck
       [\<lparr>bt_box = (0, 0), bt_text = ''Opt'', bt_n = 40\<rparr>,
        \<lparr>bt_box = (0, 1), bt_text = ''Shock'', bt_n = 25\<rparr>]
     = \<lparr>maindeck = [(''Opt'', 40), (''Shock'', 20)], sideboard = [(''Shock'', 5)]\<rparr>
   \<and> pile_total (maindeck (assemble_deck
       [\<lparr>bt_box = (0, 0), bt_text = ''Opt'', bt_n = 40\<rparr>,
        \<lparr>bt_box = (0, 1), bt_text = ''Shock'', bt_n = 25\<rparr>])) = 60
   \<and> pile_total (sideboard (assemble_deck
       [\<lparr>bt_box = (0, 0), bt_text = ''Opt'', bt_n = 40\<rparr>,
        \<lparr>bt_box = (0, 1), bt_text = ''Shock'', bt_n = 25\<rparr>])) = 5"
proof -
  let ?l = "[\<lparr>bt_box = (0, 0), bt_text = ''Opt'', bt_n = 40\<rparr>,
             \<lparr>bt_box = (0, 1), bt_text = ''Shock'', bt_n = 25\<rparr>]"
  have h: "\<forall>bc \<in> set ?l. 0 \<le> bt_n bc"
    by simp
  have s: "sum_list (map bt_n ?l) = 65"
    by simp
  have v: "assemble_deck ?l
             = \<lparr>maindeck = [(''Opt'', 40), (''Shock'', 20)], sideboard = [(''Shock'', 5)]\<rparr>"
    by code_simp
  from assemble_deck_refines_spec [OF h] s
  have "assemble_deck ?l = assemble_deck_spec ?l
        \<and> pile_total (maindeck (assemble_deck ?l)) = 60
        \<and> pile_total (sideboard (assemble_deck ?l)) = 5"
    by blast
  with v show ?thesis
    by blast
qed

subsection \<open>Keyword Filter\<close>

text \<open>
  C4, as stated: a fragment whose normalized text is within the threshold of a keyword is
  rejected. The keyword lookup of line 75 reads the text as the box stores it, not its
  normalization: \<^verbatim>\<open>Flash12\<close> is at distance 2 from the keyword \<^verbatim>\<open>Flash\<close>, above its
  threshold 1, while its normalization \<^verbatim>\<open>Flash\<close> is the keyword itself; the fragment is
  looked up and resolved to the card \<^verbatim>\<open>Flash\<close>.
\<close>

theorem keyword_rejected_counterexample:
  "preprocess ''Flash12'' = ''Flash''
   \<and> ''Flash'' \<in> set (sym_keywords (MagicRecognition [''Flash'', ''Opt''] [''Flying'', ''Flash'']))
   \<and> int (levenshtein (preprocess ''Flash12'') ''Flash'')
       \<le> min 3 (py_int (max_ratio_diff_keyword (MagicRecognition [''Flash'', ''Opt''] [''Flying'', ''Flash''])
                         * of_nat (length (preprocess ''Flash12''))))
   \<and> box_texts_to_cards (MagicRecognition [''Flash'', ''Opt''] [''Flying'', ''Flash''])
        [\<lparr>bt_box = (0, 0), bt_text = ''Flash12'', bt_n = 1\<rparr>]
       = Inr [\<lparr>bt_box = (0, 0), bt_text = ''Flash'', bt_n = 1\<rparr>]"
  by code_simp

text \<open>
  C4, amended: a fragment whose text, as the box stores it, is not empty and is within
  edit distance \<open>min(3, int(max_ratio_diff_keyword * L))\<close> of some keyword, \<open>L\<close> being the
  length of that text, is rejected: \<^verbatim>\<open>search\<close> is not called for it and the resolved
  list is the one that the remaining boxes give. The keyword dictionary measures the
  optimal-string-alignment distance, which is at most the Levenshtein distance, so the
  statement holds for either.
\<close>

theorem keyword_rejected:
  assumes "k \<in> set (sym_keywords self)" and "bt_text bt \<noteq> []"
    and "int (levenshtein (bt_text bt) k)
           \<le> min 3 (py_int (max_ratio_diff_keyword self * of_nat (length (bt_text bt))))
         \<or> int (damerau_osa (bt_text bt) k)
           \<le> min 3 (py_int (max_ratio_diff_keyword self * of_nat (length (bt_text bt))))"
  shows "box_texts_to_cards_loop self box_cards (bt # rest)
           = box_texts_to_cards_loop self box_cards rest"
proof -
  let ?m = "min 3 (py_int (max_ratio_diff_keyword self * of_nat (length (bt_text bt))))"
  have "int (damerau_osa (bt_text bt) k) \<le> ?m"
    using assms(3) damerau_osa_le_levenshtein [of "bt_text bt" k] by linarith
  with assms(1) have "lookup damerau_osa (sym_keywords self) (bt_text bt) ?m \<noteq> []"
    by (rule lookup_nonempty)
  with assms(2) show ?thesis by (simp add: Let_def)
qed

theorem keyword_rejected_witness:
  "box_texts_to_cards (MagicRecognition [''Flash'', ''Opt''] [''Flying'', ''Flash''])
     [\<lparr>bt_box = (0, 0), bt_text = ''Flash'', bt_n = 1\<rparr>] = Inr []"
proof -
  let ?m = "MagicRecognition [''Flash'', ''Opt''] [''Flying'', ''Flash'']"
  let ?bt = "\<lparr>bt_box = (0, 0), bt_text = ''Flash'', bt_n = 1\<rparr>"
  have h1: "''Flash'' \<in> set (sym_keywords ?m)"
    by (simp add: MagicRecognition_def)
  have h2: "bt_text ?bt \<noteq> []"
    by simp
  have h3: "int (levenshtein (bt_text ?bt) ''Flash'')
           \<le> min 3 (py_int (max_ratio_diff_keyword ?m * of_nat (length (bt_text ?bt))))
         \<or> int (damerau_osa (bt_text ?bt) ''Flash'')
           \<le> min 3 (py_int (max_ratio_diff_keyword ?m * of_nat (length (bt_text ?bt))))"
    by code_simp
  from keyword_rejected [OF h1 h2 h3, of "[]" "[]"] show ?thesis
    by (simp add: box_texts_to_cards_def)
qed

subsection \<open>Quantity Assigner\<close>

lemma i_min_fold_gate:
  "foldl (\<lambda>i_min i. if comp_sb (bt_box (bc ! i)) (bt_box (bc ! i_min)) box then i else i_min) j is = r \<Longrightarrow>
   r = j \<or> gate (bt_box (bc ! r)) box"
proof (induction "is" arbitrary: j)
  case Nil
  then show ?case by simp
next
  case (Cons i "is")
  show ?case
  proof (cases "comp_sb (bt_box (bc ! i)) (bt_box (bc ! j)) box")
    case True
    then have g: "gate (bt_box (bc ! i)) box"
      by (auto simp: comp_sb_def gate_def split: if_splits)
    from Cons.prems True have
      "foldl (\<lambda>i_min i. if comp_sb (bt_box (bc ! i)) (bt_box (bc ! i_min)) box then i else i_min) i is = r"
      by simp
    from Cons.IH [OF this] g show ?thesis by auto
  next
    case False
    with Cons.prems have
      "foldl (\<lambda>i_min i. if comp_sb (bt_box (bc ! i)) (bt_box (bc ! i_min)) box then i else i_min) j is = r"
      by simp
    from Cons.IH [OF this] show ?thesis .
  qed
qed

lemma i_min_loop_comp_sb_gate:
  "i_min_loop (\<lambda>box1 box2. comp 1 box1 box2 box) bc = r \<Longrightarrow>
   r = 0 \<or> gate (bt_box (bc ! r)) box"
  unfolding i_min_loop_def comp_def
  using i_min_fold_gate [of bc box 0 "[0..<length bc]" r] by simp

text \<open>
  C7. The claim is that under \<^verbatim>\<open>comp_sb\<close> a resolved box that fails the directional gate is
  never the one whose count is overwritten. \<^verbatim>\<open>assign_stacked_one\<close> starts from
  \<^verbatim>\<open>i_min = 0\<close> and applies the gate to the challenger only (lemma
  \<open>i_min_loop_comp_sb_gate\<close>: a chosen index other than 0 passes the gate), so the first
  resolved box is chosen without passing it whenever no box that passes is strictly
  nearer. Here the label \<^verbatim>\<open>4x\<close> at (5, 5) overwrites the count of the box at (6, 4), which
  fails the gate, although the box at (0, 5) passes it; and with a single resolved box
  at (10, 10) and the label at (0, 0), that box is overwritten.
\<close>

theorem comp_sb_gate_failing_box_overwritten:
  "assign_stacked
     [\<lparr>bt_box = (6, 4), bt_text = ''Opt'', bt_n = 1\<rparr>,
      \<lparr>bt_box = (0, 5), bt_text = ''Shock'', bt_n = 1\<rparr>,
      \<lparr>bt_box = (5, 5), bt_text = ''4x'', bt_n = 1\<rparr>]
     [\<lparr>bt_box = (6, 4), bt_text = ''Opt'', bt_n = 1\<rparr>,
      \<lparr>bt_box = (0, 5), bt_text = ''Shock'', bt_n = 1\<rparr>]
   = Inr [\<lparr>bt_box = (6, 4), bt_text = ''Opt'', bt_n = 4\<rparr>,
          \<lparr>bt_box = (0, 5), bt_text = ''Shock'', bt_n = 1\<rparr>]
   \<and> \<not> gate (6, 4) (5, 5) \<and> gate (0, 5) (5, 5)
   \<and> box_texts_to_stacked_cards (MagicRecognition [''Shock'', ''Opt''] [''Flying''])
        [\<lparr>bt_box = (6, 4), bt_text = ''Opt'', bt_n = 1\<rparr>,
         \<lparr>bt_box = (0, 5), bt_text = ''Shock'', bt_n = 1\<rparr>,
         \<lparr>bt_box = (5, 5), bt_text = ''4x'', bt_n = 1\<rparr>]
       = Inr \<lparr>maindeck = [(''Opt'', 4), (''Shock'', 1)], sideboard = []\<rparr>
   \<and> assign_stacked
        [\<lparr>bt_box = (0, 0), bt_text = ''4x'', bt_n = 1\<rparr>,
         \<lparr>bt_box = (10, 10), bt_text = ''Opt'', bt_n = 1\<rparr>]
        [\<lparr>bt_box = (10, 10), bt_text = ''Opt'', bt_n = 1\<rparr>]
       = Inr [\<lparr>bt_box = (10, 10), bt_text = ''Opt'', bt_n = 4\<rparr>]
   \<and> \<not> gate (10, 10) (0, 0)"
  by code_simp

lemma assign_stacked_label_empty:
  "assign_stacked_label b t i [] =
     (if glyph (t ! i) \<and> isnumeric (t ! (1 - i))
      then (if isdecimal (t ! (1 - i)) then Inl IndexError else Inl ValueError)
      else Inr [])"
  by (simp add: assign_stacked_label_def assign_stacked_one_def i_min_loop_def int_of_char_def)

lemma assign_stacked_empty_Inr:
  "assign_stacked bts [] = Inr r \<Longrightarrow> r = [] \<and> (\<forall>bt \<in> set bts. \<not> count_label (bt_text bt))"
proof (induction bts)
  case Nil
  then show ?case by simp
next
  case (Cons bt rest)
  show ?case
  proof (cases "length (bt_text bt) = 2")
    case False
    with Cons show ?thesis by (simp add: count_label_def)
  next
    case True
    with Cons.prems have n: "\<not> (glyph (bt_text bt ! 0) \<and> isnumeric (bt_text bt ! 1))"
      by (auto simp: assign_stacked_label_empty split: if_splits)
    with True Cons.prems have n': "\<not> (glyph (bt_text bt ! 1) \<and> isnumeric (bt_text bt ! 0))"
      by (auto simp: assign_stacked_label_empty split: if_splits)
    from True Cons.prems n n' have "assign_stacked rest [] = Inr r"
      by (auto simp: assign_stacked_label_empty split: if_splits)
    from Cons.IH [OF this] n n' show ?thesis by (simp add: count_label_def)
  qed
qed

lemma glyph_not_numeric: "glyph c \<Longrightarrow> \<not> isnumeric c"
  by (auto simp: glyph_def isnumeric_def isdecimal_def)

lemma assign_stacked_empty_Inl:
  "\<forall>b \<in> set bts. count_label (bt_text b) \<longrightarrow> decimal_label (bt_text b) \<Longrightarrow>
   assign_stacked bts [] = Inl e \<Longrightarrow> e = IndexError"
proof (induction bts)
  case Nil
  then show ?case by simp
next
  case (Cons bt rest)
  let ?t = "bt_text bt"
  show ?case
  proof (cases "count_label ?t")
    case False
    then have "assign_stacked (bt # rest) [] = assign_stacked rest []"
      by (auto simp: count_label_def assign_stacked_label_empty)
    with Cons show ?thesis by simp
  next
    case True
    with Cons.prems(1) have d: "decimal_label ?t" by simp
    then have len: "length ?t = 2" by (simp add: decimal_label_def)
    from d consider
      (a) "glyph (?t ! 0)" "isdecimal (?t ! 1)" | (b) "glyph (?t ! 1)" "isdecimal (?t ! 0)"
      by (auto simp: decimal_label_def)
    then have "assign_stacked (bt # rest) [] = Inl IndexError"
    proof cases
      case a
      then show ?thesis using len
        by (simp add: assign_stacked_label_empty isnumeric_def)
    next
      case b
      then have "\<not> isnumeric (?t ! 1)" by (simp add: glyph_not_numeric)
      with b show ?thesis using len
        by (simp add: assign_stacked_label_empty isnumeric_def)
    qed
    with Cons.prems(2) show ?thesis by simp
  qed
qed

text \<open>
  C10, as stated: with a count label among the boxes and an empty resolved list, the
  assignment fails by the out-of-bounds access. When an earlier two-character text pairs
  a glyph with a numeric character that is not a decimal digit (here superscript two),
  \<^verbatim>\<open>int\<close> raises \<^verbatim>\<open>ValueError\<close> before \<^verbatim>\<open>assign_stacked_one\<close> is entered.
\<close>

theorem assign_stacked_empty_counterexample:
  "decimal_label ''x4''
   \<and> assign_stacked
       [\<lparr>bt_box = (0, 0), bt_text = [CHR ''x'', CHR 0xB2], bt_n = 1\<rparr>,
        \<lparr>bt_box = (0, 5), bt_text = ''x4'', bt_n = 1\<rparr>] [] = Inl ValueError"
  by code_simp

text \<open>
  C10, amended: when the box list holds a two-character text that pairs a multiplier
  glyph with a numeric character and the resolved list is empty, \<^verbatim>\<open>assign_stacked\<close> fails
  instead of absorbing the failure; and when every such text of the list carries a
  decimal digit, the failure is the out-of-bounds access \<^verbatim>\<open>box_cards[0]\<close> on the empty
  list (\<^verbatim>\<open>IndexError\<close>).
\<close>

theorem assign_stacked_empty_fails:
  assumes "bt \<in> set box_texts" and "count_label (bt_text bt)"
  shows "(\<exists>e. assign_stacked box_texts [] = Inl e)
         \<and> ((\<forall>b \<in> set box_texts. count_label (bt_text b) \<longrightarrow> decimal_label (bt_text b))
              \<longrightarrow> assign_stacked box_texts [] = Inl IndexError)"
proof -
  have "\<exists>e. assign_stacked box_texts [] = Inl e"
  proof (cases "assign_stacked box_texts []")
    case (Inl e)
    then show ?thesis by simp
  next
    case (Inr r)
    from assign_stacked_empty_Inr [OF this] assms show ?thesis by blast
  qed
  then show ?thesis using assign_stacked_empty_Inl by blast
qed

theorem assign_stacked_empty_fails_witness:
  "assign_stacked
     [\<lparr>bt_box = (0, 0), bt_text = ''Island'', bt_n = 1\<rparr>,
      \<lparr>bt_box = (0, 5), bt_text = ''x4'', bt_n = 1\<rparr>] [] = Inl IndexError
   \<and> box_texts_to_stacked_cards (MagicRecognition [''Shock'', ''Opt''] [''Flying''])
       [\<lparr>bt_box = (0, 5), bt_text = ''x4'', bt_n = 1\<rparr>] = Inl IndexError"
proof -
  have p: "box_texts_to_stacked_cards (MagicRecognition [''Shock'', ''Opt''] [''Flying''])
       [\<lparr>bt_box = (0, 5), bt_text = ''x4'', bt_n = 1\<rparr>] = Inl IndexError"
    by code_simp
  let ?bts = "[\<lparr>bt_box = (0, 0), bt_text = ''Island'', bt_n = 1\<rparr>,
               \<lparr>bt_box = (0, 5), bt_text = ''x4'', bt_n = 1\<rparr>]"
  let ?bt = "\<lparr>bt_box = (0, 5), bt_text = ''x4'', bt_n = 1\<rparr>"
  have h1: "?bt \<in> set ?bts"
    by simp
  have h2: "count_label (bt_text ?bt)"
    by code_simp
  have h3: "\<forall>b \<in> set ?bts. count_label (bt_text b) \<longrightarrow> decimal_label (bt_text b)"
    by (simp add: count_label_def decimal_label_def isdecimal_def isnumeric_def glyph_def)
  from assign_stacked_empty_fails [OF h1 h2] h3
  have "assign_stacked ?bts [] = Inl IndexError"
    by blast
  with p show ?thesis
    by blast
qed

end
